theory Spec2Isabelle
  imports Complex_Main "HOL-Library.Multiset"
begin

section \<open>PackedDB: a database operating on a set of object packs (db/pack.py)\<close>

subsection \<open>Errors\<close>

text \<open>
  Every exception the module can raise is a value. \<open>BadObject\<close> carries the binary sha
  it is raised with; \<open>TypeError\<close> is what \<open>reduce\<close> raises on an empty sequence and what
  the hexadecimal decoder raises on malformed input; \<open>OSError\<close> is a failing \<open>os.stat\<close>;
  \<open>AttributeError\<close> is an attribute that is still missing after the lazy loader ran.
\<close>

datatype error =
    BadObject string
  | UnsupportedOperation
  | NotImplementedError
  | AssertionError
  | TypeError
  | OSError
  | AttributeError

subsection \<open>Collaborators that are not part of db/pack.py\<close>

text \<open>
  Modelled from the spec: \<open>gitdb.pack.PackEntity\<close> is missing from the sources. The
  spec's ArchiveUnit contract gives it a backing path, a size, an object count, a
  lookup from a hash to a locator, the hash at an index position, and the metadata and
  byte stream at a locator. The fields are named after the calls \<open>pack.py\<close> makes:
  \<open>entity.pack().path()\<close>, \<open>entity.pack().size()\<close>, \<open>entity.index().size()\<close>,
  \<open>entity.index().sha_to_index\<close>, \<open>entity.index().sha\<close>, \<open>entity.info_at_index\<close>,
  \<open>entity.stream_at_index\<close>.
\<close>

type_synonym OInfo = "string \<times> nat"
type_synonym OStream = "string"

record PackEntity =
  pack_path :: string
  pack_size :: int
  index_size :: nat
  index_sha_to_index :: "string \<Rightarrow> nat option"
  index_sha :: "nat \<Rightarrow> string"
  info_at_index :: "nat \<Rightarrow> OInfo"
  stream_at_index :: "nat \<Rightarrow> OStream"

text \<open>
  What the module sees of the world outside the object during one call:
  \<^item> \<open>stat_mtime\<close>: \<open>os.stat(self.root_path()).st_mtime\<close>, \<open>None\<close> when \<open>os.stat\<close> raises;
    modification times are only ever compared, so they are numbers in a linear order;
  \<^item> \<open>glob_packs\<close>: the list \<open>glob.glob(os.path.join(self.root_path(), "pack-*.pack"))\<close>;
  \<^item> \<open>disk_pack\<close>: the content of the pack found at a path of the directory;
  \<^item> \<open>set_slot\<close>: Python iterates a \<open>set\<close> in the order of its hash-table slots, which the
    language leaves open; the slot of every path is a parameter, and the theorems hold
    for every choice of it.
\<close>

record world =
  stat_mtime :: "real option"
  glob_packs :: "string list"
  disk_pack :: "string \<Rightarrow> PackEntity"
  set_slot :: "string \<Rightarrow> nat"

text \<open>
  Modelled from the spec: the constructor \<open>PackEntity(pack_file)\<close> is missing from the
  sources; the spec has it construct a new unit bound to that path, so the new entity
  reports \<open>pack_file\<close> as its backing path and otherwise has what the disk holds there.
\<close>

definition new_PackEntity :: "world \<Rightarrow> string \<Rightarrow> PackEntity" where
  "new_PackEntity w pack_file = (disk_pack w pack_file)\<lparr>pack_path := pack_file\<rparr>"

text \<open>
  Modelled from the spec: \<open>gitdb.util.to_bin_sha\<close> is missing from the sources. The spec
  has hashes arrive either in the compact binary form or in the expanded hexadecimal
  form, normalised to binary before any lookup; the docstring of \<open>_pack_info\<close> fixes the
  two lengths (\<open>20 or 40 byte sha\<close>). A string of 20 bytes is taken as binary, anything
  else is decoded as hexadecimal, two digits of either case per byte, and a string of
  odd length or with another character is a \<open>TypeError\<close>.
\<close>

definition hex_digit :: "char \<Rightarrow> nat option" where
  "hex_digit c =
     (let n = (of_char c :: nat) in
      if 48 \<le> n \<and> n \<le> 57 then Some (n - 48)
      else if 97 \<le> n \<and> n \<le> 102 then Some (n - 87)
      else if 65 \<le> n \<and> n \<le> 70 then Some (n - 55)
      else None)"

fun hex_to_bin :: "string \<Rightarrow> error + string" where
  "hex_to_bin [] = Inr []"
| "hex_to_bin [c] = Inl TypeError"
| "hex_to_bin (c # d # rest) =
     (case hex_digit c of
        None \<Rightarrow> Inl TypeError
      | Some hi \<Rightarrow>
          (case hex_digit d of
             None \<Rightarrow> Inl TypeError
           | Some lo \<Rightarrow>
               (case hex_to_bin rest of
                  Inl e \<Rightarrow> Inl e
                | Inr bs \<Rightarrow> Inr (char_of (16 * hi + lo) # bs))))"

definition to_bin_sha :: "string \<Rightarrow> error + string" where
  "to_bin_sha sha = (if length sha = 20 then Inr sha else hex_to_bin sha)"

text \<open>The lower-case hexadecimal form of a binary string, the inverse of the decoder.\<close>

definition hex_char :: "nat \<Rightarrow> char" where
  "hex_char n = (if n < 10 then char_of (48 + n) else char_of (87 + n))"

fun bin_to_hex :: "string \<Rightarrow> string" where
  "bin_to_hex [] = []"
| "bin_to_hex (c # cs) =
     hex_char ((of_char c :: nat) div 16) # hex_char ((of_char c :: nat) mod 16) # bin_to_hex cs"

subsection \<open>The object\<close>

text \<open>
  An element of \<open>self._entities\<close> is the three-item list \<open>[hits, entity, sha_to_index]\<close>:
  \<open>item[0]\<close>, \<open>item[1]\<close>, \<open>item[2]\<close>.
\<close>

record item =
  hits :: int
  entity :: PackEntity
  sha_to_index :: "string \<Rightarrow> nat option"

text \<open>
  The attributes of a \<open>PackedDB\<close>. \<open>_entities\<close> is created lazily, so it is \<open>None\<close> until
  its first read. \<open>__init__\<close> sets the two counters and leaves \<open>_entities\<close> unset.
\<close>

record PackedDB =
  db_entities :: "item list option"
  db_hit_count :: int
  db_st_mtime :: real

definition init :: PackedDB where
  "init = \<lparr>db_entities = None, db_hit_count = 0, db_st_mtime = 0\<rparr>"

definition sort_interval :: int where
  "sort_interval = 500"

text \<open>
  \<open>list.sort(key=lambda l: l[0], reverse=True)\<close>: a stable sort, descending by hits;
  records with equal hits keep their order.
\<close>

definition sort_desc :: "item list \<Rightarrow> item list" where
  "sort_desc es = sort_key (\<lambda>l. - hits l) es"

text \<open>
  Python sets of paths, as lists: \<open>set(...)\<close> drops duplicates, \<open>a - b\<close> keeps the elements
  of \<open>a\<close> that are not in \<open>b\<close>, and a \<open>for\<close> loop visits a set in slot order.
\<close>

definition py_set :: "string list \<Rightarrow> string list" where
  "py_set xs = remdups xs"

definition set_minus :: "string list \<Rightarrow> string list \<Rightarrow> string list" where
  "set_minus a b = filter (\<lambda>x. x \<notin> set b) a"

definition set_iter :: "world \<Rightarrow> string list \<Rightarrow> string list" where
  "set_iter w a = sort_key (set_slot w) a"

text \<open>The slots that make a loop visit the paths of a given list in the order of the list.\<close>

fun slot_of :: "string list \<Rightarrow> string \<Rightarrow> nat" where
  "slot_of [] x = 0"
| "slot_of (y # ys) x = (if x = y then 0 else Suc (slot_of ys x))"

text \<open>\<open>item[1].pack().path()\<close>, the backing path of a record.\<close>

abbreviation item_path :: "item \<Rightarrow> string" where
  "item_path it \<equiv> pack_path (entity it)"

text \<open>Lines 137 to 142: one new record per new pack file, appended to the list.\<close>

definition new_item :: "world \<Rightarrow> string \<Rightarrow> item" where
  "new_item w pack_file =
     (let e = new_PackEntity w pack_file
      in \<lparr>hits = pack_size e, entity = e, sha_to_index = index_sha_to_index e\<rparr>)"

fun add_packs :: "world \<Rightarrow> string list \<Rightarrow> item list \<Rightarrow> item list" where
  "add_packs w [] es = es"
| "add_packs w (pack_file # rest) es = add_packs w rest (es @ [new_item w pack_file])"

text \<open>
  Lines 146 to 151: \<open>del_index\<close> starts at \<open>-1\<close> and becomes the position of the first
  record whose path is \<open>pack_file\<close>.
\<close>

fun del_index :: "nat \<Rightarrow> string \<Rightarrow> item list \<Rightarrow> int" where
  "del_index i pack_file [] = - 1"
| "del_index i pack_file (it # rest) =
     (if item_path it = pack_file then int i else del_index (Suc i) pack_file rest)"

text \<open>
  Lines 145 to 155: the assertion and the deletion, for each removed pack file. A failing
  assertion leaves the list as the loop had it.
\<close>

fun remove_packs :: "string list \<Rightarrow> item list \<Rightarrow> (error + unit) \<times> item list" where
  "remove_packs [] es = (Inr (), es)"
| "remove_packs (pack_file # rest) es =
     (let d = del_index 0 pack_file es
      in if d = - 1 then (Inl AssertionError, es)
         else remove_packs rest (take (nat d) es @ drop (Suc (nat d)) es))"

text \<open>Lines 133 to 159 on the list \<open>es\<close> that \<open>self._entities\<close> holds.\<close>

definition rescan :: "world \<Rightarrow> item list \<Rightarrow> (error + bool) \<times> item list" where
  "rescan w es =
     (let pack_files = py_set (glob_packs w);
          our_pack_files = py_set (map item_path es);
          es1 = add_packs w (set_iter w (set_minus pack_files our_pack_files)) es
      in case remove_packs (set_iter w (set_minus our_pack_files pack_files)) es1 of
           (Inl e, es2) \<Rightarrow> (Inl e, es2)
         | (Inr _, es2) \<Rightarrow> (Inr True, sort_desc es2))"

text \<open>
  Modelled from the spec: \<open>gitdb.util.LazyMixin\<close> is missing from the sources; the spec has
  the registry constructed lazily on first use, empty and then populated by a
  reconciliation. So the first read of the unset attribute \<open>self._entities\<close> calls
  \<open>_set_cache_\<close> (lines 45 to 48), which sets it to the empty list and calls
  \<open>update_pack_entity_cache()\<close>, and then reads the attribute; an attribute still missing
  then is an \<open>AttributeError\<close>.

  \<open>update_pack_entity_cache\<close>, lines 118 to 159. Its read of \<open>self._entities\<close> on line 134
  is the first one of the call, and may be the first one of the object.
\<close>

function update_pack_entity_cache :: "world \<Rightarrow> bool \<Rightarrow> PackedDB \<Rightarrow> (error + bool) \<times> PackedDB" where
  "update_pack_entity_cache w force s =
     (case stat_mtime w of
        None \<Rightarrow> (Inl OSError, s)
      | Some t \<Rightarrow>
          if \<not> force \<and> t \<le> db_st_mtime s then (Inr False, s)
          else
            (let s1 = s\<lparr>db_st_mtime := t\<rparr>
             in case
                  (case db_entities s1 of
                     Some es \<Rightarrow> (Inr es, s1)
                   | None \<Rightarrow>
                       (case update_pack_entity_cache w False (s1\<lparr>db_entities := Some []\<rparr>) of
                          (Inl e, s2) \<Rightarrow> (Inl e, s2)
                        | (Inr _, s2) \<Rightarrow>
                            (case db_entities s2 of
                               None \<Rightarrow> (Inl AttributeError, s2)
                             | Some es \<Rightarrow> (Inr es, s2))))
                of
                  (Inl e, s3) \<Rightarrow> (Inl e, s3)
                | (Inr es, s3) \<Rightarrow>
                    (case rescan w es of
                       (r, es') \<Rightarrow> (r, s3\<lparr>db_entities := Some es'\<rparr>))))"
  by pat_completeness auto
termination
  by (relation "measure (\<lambda>(w, force, s). if db_entities s = None then 1 else 0)") auto

declare update_pack_entity_cache.simps [simp del]

text \<open>
  \<open>_set_cache_\<close> by itself, and the read of \<open>self._entities\<close> as the other methods make
  it: a set attribute is returned as it is, an unset one is loaded by \<open>_set_cache_\<close> and
  read afterwards.
\<close>

definition set_cache :: "world \<Rightarrow> PackedDB \<Rightarrow> (error + unit) \<times> PackedDB" where
  "set_cache w s =
     (case update_pack_entity_cache w False (s\<lparr>db_entities := Some []\<rparr>) of
        (Inl e, s') \<Rightarrow> (Inl e, s')
      | (Inr _, s') \<Rightarrow> (Inr (), s'))"

definition get_entities :: "world \<Rightarrow> PackedDB \<Rightarrow> (error + item list) \<times> PackedDB" where
  "get_entities w s =
     (case db_entities s of
        Some es \<Rightarrow> (Inr es, s)
      | None \<Rightarrow>
          (case set_cache w s of
             (Inl e, s') \<Rightarrow> (Inl e, s')
           | (Inr _, s') \<Rightarrow>
               (case db_entities s' of
                  None \<Rightarrow> (Inl AttributeError, s')
                | Some es \<Rightarrow> (Inr es, s'))))"

definition sort_entities :: "world \<Rightarrow> PackedDB \<Rightarrow> (error + unit) \<times> PackedDB" where
  "sort_entities w s =
     (case get_entities w s of
        (Inl e, s') \<Rightarrow> (Inl e, s')
      | (Inr es, s') \<Rightarrow> (Inr (), s'\<lparr>db_entities := Some (sort_desc es)\<rparr>))"

text \<open>
  Lines 67 to 74: the loop over the records. The first record whose \<open>item[2]\<close> resolves
  the sha gets one more hit, and the loop returns its entity and the index; \<open>None\<close> when
  the loop runs to its end.
\<close>

fun scan_items :: "string \<Rightarrow> item list \<Rightarrow> ((PackEntity \<times> nat) \<times> item list) option" where
  "scan_items sha [] = None"
| "scan_items sha (it # rest) =
     (case sha_to_index it sha of
        Some index \<Rightarrow> Some ((entity it, index), it\<lparr>hits := hits it + 1\<rparr> # rest)
      | None \<Rightarrow>
          (case scan_items sha rest of
             None \<Rightarrow> None
           | Some (r, rest') \<Rightarrow> Some (r, it # rest')))"

definition pack_info :: "world \<Rightarrow> PackedDB \<Rightarrow> string \<Rightarrow> (error + PackEntity \<times> nat) \<times> PackedDB" where
  "pack_info w s sha =
     (case (if db_hit_count s mod sort_interval = 0 then sort_entities w s else (Inr (), s)) of
        (Inl e, s1) \<Rightarrow> (Inl e, s1)
      | (Inr _, s1) \<Rightarrow>
          (case to_bin_sha sha of
             Inl e \<Rightarrow> (Inl e, s1)
           | Inr bsha \<Rightarrow>
               (case get_entities w s1 of
                  (Inl e, s2) \<Rightarrow> (Inl e, s2)
                | (Inr es, s2) \<Rightarrow>
                    (case scan_items bsha es of
                       Some (r, es') \<Rightarrow>
                         (Inr r, s2\<lparr>db_entities := Some es', db_hit_count := db_hit_count s2 + 1\<rparr>)
                     | None \<Rightarrow> (Inl (BadObject bsha), s2)))))"

definition has_object :: "world \<Rightarrow> PackedDB \<Rightarrow> string \<Rightarrow> (error + bool) \<times> PackedDB" where
  "has_object w s sha =
     (case pack_info w s sha of
        (Inr _, s') \<Rightarrow> (Inr True, s')
      | (Inl (BadObject _), s') \<Rightarrow> (Inr False, s')
      | (Inl e, s') \<Rightarrow> (Inl e, s'))"

definition info :: "world \<Rightarrow> PackedDB \<Rightarrow> string \<Rightarrow> (error + OInfo) \<times> PackedDB" where
  "info w s sha =
     (case pack_info w s sha of
        (Inl e, s') \<Rightarrow> (Inl e, s')
      | (Inr (e, index), s') \<Rightarrow> (Inr (info_at_index e index), s'))"

definition stream :: "world \<Rightarrow> PackedDB \<Rightarrow> string \<Rightarrow> (error + OStream) \<times> PackedDB" where
  "stream w s sha =
     (case pack_info w s sha of
        (Inl e, s') \<Rightarrow> (Inl e, s')
      | (Inr (e, index), s') \<Rightarrow> (Inr (stream_at_index e index), s'))"

definition store :: "'a \<Rightarrow> PackedDB \<Rightarrow> (error + unit) \<times> PackedDB" where
  "store istream s = (Inl UnsupportedOperation, s)"

definition store_async :: "'a \<Rightarrow> PackedDB \<Rightarrow> (error + unit) \<times> PackedDB" where
  "store_async reader s = (Inl NotImplementedError, s)"

definition entities :: "world \<Rightarrow> PackedDB \<Rightarrow> (error + PackEntity list) \<times> PackedDB" where
  "entities w s =
     (case get_entities w s of
        (Inl e, s') \<Rightarrow> (Inl e, s')
      | (Inr es, s') \<Rightarrow> (Inr (map entity es), s'))"

text \<open>\<open>sha_iter\<close>: the shas the generator yields, in order, when it is run to its end.\<close>

definition sha_iter :: "world \<Rightarrow> PackedDB \<Rightarrow> (error + string list) \<times> PackedDB" where
  "sha_iter w s =
     (case entities w s of
        (Inl e, s') \<Rightarrow> (Inl e, s')
      | (Inr ents, s') \<Rightarrow>
          (Inr (concat (map (\<lambda>e. map (index_sha e) [0 ..< index_size e]) ents)), s'))"

text \<open>
  \<open>reduce(lambda x,y: x+y, sizes)\<close> has no initial value: on an empty list Python raises
  a \<open>TypeError\<close>, on \<open>x # xs\<close> it folds from \<open>x\<close>.
\<close>

definition reduce_add :: "nat list \<Rightarrow> error + nat" where
  "reduce_add sizes = (case sizes of [] \<Rightarrow> Inl TypeError | x # xs \<Rightarrow> Inr (foldl (+) x xs))"

definition size_db :: "world \<Rightarrow> PackedDB \<Rightarrow> (error + nat) \<times> PackedDB" where
  "size_db w s =
     (case get_entities w s of
        (Inl e, s') \<Rightarrow> (Inl e, s')
      | (Inr es, s') \<Rightarrow> (reduce_add (map (\<lambda>it. index_size (entity it)) es), s'))"

subsection \<open>Runs of the object\<close>

text \<open>
  A call of one public or internal method with its arguments; \<open>exec\<close> is the object after
  the call, whether the call returned or raised. A run starts from \<open>__init__\<close> and makes
  any calls, each in the world of its moment.
\<close>

datatype 'a call =
    Update bool
  | PackInfo string
  | HasObject string
  | Info string
  | Stream string
  | Store 'a
  | StoreAsync 'a
  | Entities
  | ShaIter
  | Size

fun exec :: "world \<Rightarrow> 'a call \<Rightarrow> PackedDB \<Rightarrow> PackedDB" where
  "exec w (Update force) s = snd (update_pack_entity_cache w force s)"
| "exec w (PackInfo sha) s = snd (pack_info w s sha)"
| "exec w (HasObject sha) s = snd (has_object w s sha)"
| "exec w (Info sha) s = snd (info w s sha)"
| "exec w (Stream sha) s = snd (stream w s sha)"
| "exec w (Store istream) s = snd (store istream s)"
| "exec w (StoreAsync reader) s = snd (store_async reader s)"
| "exec w Entities s = snd (entities w s)"
| "exec w ShaIter s = snd (sha_iter w s)"
| "exec w Size s = snd (size_db w s)"

fun run :: "PackedDB \<Rightarrow> (world \<times> 'a call) list \<Rightarrow> PackedDB" where
  "run s [] = s"
| "run s ((w, c) # rest) = run (exec w c s) rest"

text \<open>The paths of the registered packs, in list order; none before the list exists.\<close>

definition registered_paths :: "PackedDB \<Rightarrow> string list" where
  "registered_paths s =
     (case db_entities s of None \<Rightarrow> [] | Some es \<Rightarrow> map item_path es)"

subsection \<open>Intermediate values of the methods\<close>

text \<open>
  Inside \<open>update_pack_entity_cache\<close>: the list after the loop of lines 137 to 142, from
  which the removal loop starts, and the paths the removal loop of line 145 visits.
\<close>

definition added :: "world \<Rightarrow> item list \<Rightarrow> item list" where
  "added w es =
     add_packs w (set_iter w (set_minus (py_set (glob_packs w)) (py_set (map item_path es)))) es"

definition gone :: "world \<Rightarrow> item list \<Rightarrow> string list" where
  "gone w es = set_iter w (set_minus (py_set (map item_path es)) (py_set (glob_packs w)))"

text \<open>
  Inside \<open>_pack_info\<close>: the list the loop of line 67 scans, which is the list of the call
  after the presort of lines 62 and 63.
\<close>

definition presorted :: "PackedDB \<Rightarrow> item list \<Rightarrow> item list" where
  "presorted s es = (if db_hit_count s mod sort_interval = 0 then sort_desc es else es)"

subsection \<open>A small pack directory\<close>

text \<open>
  Two packs and the directory that holds some of them at a modification time, for the
  concrete runs below. Pack \<open>a\<close> resolves \<open>ex_sha_a\<close> at index 2, pack \<open>b\<close> resolves
  \<open>ex_sha_b\<close> at index 0; \<open>ex_hex_a\<close> is \<open>ex_sha_a\<close> in hexadecimal.
\<close>

definition ex_sha_a :: string where
  "ex_sha_a = ''aaaaaaaaaaaaaaaaaaaa''"

definition ex_sha_b :: string where
  "ex_sha_b = ''bbbbbbbbbbbbbbbbbbbb''"

definition ex_sha_c :: string where
  "ex_sha_c = ''cccccccccccccccccccc''"

definition ex_hex_a :: string where
  "ex_hex_a = ''6161616161616161616161616161616161616161''"

definition ex_pack_a :: PackEntity where
  "ex_pack_a =
     \<lparr>pack_path = ''pack-a.pack'', pack_size = 7, index_size = 3,
      index_sha_to_index = (\<lambda>h. if h = ex_sha_a then Some 2 else None),
      index_sha = (\<lambda>i. ex_sha_a),
      info_at_index = (\<lambda>i. (''blob'', 10)),
      stream_at_index = (\<lambda>i. ''data'')\<rparr>"

definition ex_pack_b :: PackEntity where
  "ex_pack_b =
     \<lparr>pack_path = ''pack-b.pack'', pack_size = 9, index_size = 1,
      index_sha_to_index = (\<lambda>h. if h = ex_sha_b then Some 0 else None),
      index_sha = (\<lambda>i. ex_sha_b),
      info_at_index = (\<lambda>i. (''tree'', 4)),
      stream_at_index = (\<lambda>i. ''more'')\<rparr>"

definition ex_disk :: "string list \<Rightarrow> real \<Rightarrow> world" where
  "ex_disk packs t =
     \<lparr>stat_mtime = Some t, glob_packs = packs,
      disk_pack = (\<lambda>p. if p = ''pack-b.pack'' then ex_pack_b else ex_pack_a),
      set_slot = length\<rparr>"

definition ex_item_a :: item where
  "ex_item_a = \<lparr>hits = 7, entity = ex_pack_a, sha_to_index = index_sha_to_index ex_pack_a\<rparr>"

definition ex_item_b :: item where
  "ex_item_b = \<lparr>hits = 9, entity = ex_pack_b, sha_to_index = index_sha_to_index ex_pack_b\<rparr>"

definition ex_db :: PackedDB where
  "ex_db = \<lparr>db_entities = Some [ex_item_a, ex_item_b], db_hit_count = 0, db_st_mtime = 1\<rparr>"

section \<open>Properties\<close>

subsection \<open>The method bodies, unfolded\<close>

lemma update_present:
  "db_entities s = Some es \<Longrightarrow>
   update_pack_entity_cache w force s =
     (case stat_mtime w of
        None \<Rightarrow> (Inl OSError, s)
      | Some t \<Rightarrow>
          if \<not> force \<and> t \<le> db_st_mtime s then (Inr False, s)
          else (case rescan w es of
                  (r, es') \<Rightarrow> (r, s\<lparr>db_st_mtime := t, db_entities := Some es'\<rparr>)))"
  by (subst update_pack_entity_cache.simps) (simp split: option.splits prod.splits)

lemma update_absent:
  "db_entities s = None \<Longrightarrow>
   update_pack_entity_cache w force s =
     (case stat_mtime w of
        None \<Rightarrow> (Inl OSError, s)
      | Some t \<Rightarrow>
          if \<not> force \<and> t \<le> db_st_mtime s then (Inr False, s)
          else (case rescan w [] of
                  (r, es') \<Rightarrow> (r, s\<lparr>db_st_mtime := t, db_entities := Some es'\<rparr>)))"
  apply (subst update_pack_entity_cache.simps)
  apply (simp split: option.splits prod.splits add: update_present)
  done

lemma del_index_ge: "del_index i p es \<noteq> - 1 \<Longrightarrow> int i \<le> del_index i p es"
  by (induction es arbitrary: i) (auto split: if_splits, fastforce)

lemma del_index_none: "(del_index i p es = - 1) = (p \<notin> item_path ` set es)"
proof (induction es arbitrary: i)
  case Nil
  show ?case by simp
next
  case (Cons it es)
  show ?case using Cons.IH [of "Suc i"] by auto
qed

lemma del_index_split:
  "p \<in> item_path ` set es \<Longrightarrow>
   \<exists>pre x post. es = pre @ x # post \<and> (\<forall>y\<in>set pre. item_path y \<noteq> p) \<and> item_path x = p
      \<and> del_index i p es = int (i + length pre)"
proof (induction es arbitrary: i)
  case Nil
  then show ?case by simp
next
  case (Cons it es)
  show ?case
  proof (cases "item_path it = p")
    case True
    then have "it # es = [] @ it # es \<and> (\<forall>y\<in>set []. item_path y \<noteq> p) \<and> item_path it = p
      \<and> del_index i p (it # es) = int (i + length ([]::item list))"
      by simp
    then show ?thesis by blast
  next
    case False
    with Cons.prems have "p \<in> item_path ` set es" by auto
    from Cons.IH [OF this, of "Suc i"] obtain pre x post where
      h: "es = pre @ x # post" "\<forall>y\<in>set pre. item_path y \<noteq> p" "item_path x = p"
         "del_index (Suc i) p es = int (Suc i + length pre)"
      by blast
    with False have "it # es = (it # pre) @ x # post \<and> (\<forall>y\<in>set (it # pre). item_path y \<noteq> p)
      \<and> item_path x = p \<and> del_index i p (it # es) = int (i + length (it # pre))"
      by simp
    then show ?thesis by blast
  qed
qed

lemma remove_packs_step:
  assumes "p \<in> item_path ` set es"
  obtains pre x post where "es = pre @ x # post" "\<forall>y\<in>set pre. item_path y \<noteq> p" "item_path x = p"
    "remove_packs (p # ps) es = remove_packs ps (pre @ post)"
proof -
  from del_index_split [OF assms, of 0] obtain pre x post where
    h: "es = pre @ x # post" "\<forall>y\<in>set pre. item_path y \<noteq> p" "item_path x = p"
       "del_index 0 p es = int (length pre)"
    by auto
  have "remove_packs (p # ps) es = remove_packs ps (pre @ post)"
    using h(1) h(4) by (simp add: Let_def)
  with h that show thesis by blast
qed

lemma remove_packs_missing:
  "p \<notin> item_path ` set es \<Longrightarrow> remove_packs (p # ps) es = (Inl AssertionError, es)"
  using del_index_none [of 0 p es] by (simp add: Let_def)

lemma remove_packs_ok:
  "distinct ps \<Longrightarrow> set ps \<subseteq> item_path ` set es \<Longrightarrow> fst (remove_packs ps es) = Inr ()"
proof (induction ps arbitrary: es)
  case Nil
  show ?case by simp
next
  case (Cons p ps)
  from Cons.prems have "p \<in> item_path ` set es" by simp
  then obtain pre x post where
    h: "es = pre @ x # post" "item_path x = p"
       "remove_packs (p # ps) es = remove_packs ps (pre @ post)"
    by (rule remove_packs_step)
  have "set ps \<subseteq> item_path ` set (pre @ post)"
  proof
    fix q assume q: "q \<in> set ps"
    with Cons.prems have "q \<noteq> p" "q \<in> item_path ` set es" by auto
    with h(1) h(2) show "q \<in> item_path ` set (pre @ post)" by auto
  qed
  with Cons.IH [of "pre @ post"] Cons.prems h(3) show ?case by simp
qed

lemma remove_packs_distinct:
  "distinct (map item_path es) \<Longrightarrow> distinct (map item_path (snd (remove_packs ps es)))"
proof (induction ps arbitrary: es)
  case Nil
  then show ?case by simp
next
  case (Cons p ps)
  show ?case
  proof (cases "p \<in> item_path ` set es")
    case False
    with Cons.prems show ?thesis by (simp add: remove_packs_missing del: remove_packs.simps)
  next
    case True
    then obtain pre x post where
      h: "es = pre @ x # post" "remove_packs (p # ps) es = remove_packs ps (pre @ post)"
      by (rule remove_packs_step)
    from Cons.prems h(1) have "distinct (map item_path (pre @ post))" by simp
    from Cons.IH [OF this] h(2) show ?thesis by simp
  qed
qed

lemma remove_packs_count:
  "item_path it \<notin> set ps \<Longrightarrow>
   count (mset (snd (remove_packs ps es))) it = count (mset es) it"
proof (induction ps arbitrary: es)
  case Nil
  show ?case by simp
next
  case (Cons p ps)
  show ?case
  proof (cases "p \<in> item_path ` set es")
    case False
    then show ?thesis by (simp add: remove_packs_missing del: remove_packs.simps)
  next
    case True
    then obtain pre x post where
      h: "es = pre @ x # post" "item_path x = p"
         "remove_packs (p # ps) es = remove_packs ps (pre @ post)"
      by (rule remove_packs_step)
    from Cons.prems h(2) have "x \<noteq> it" by auto
    with h(1) have "count (mset (pre @ post)) it = count (mset es) it" by simp
    with Cons.IH [of "pre @ post"] Cons.prems h(3) show ?thesis by simp
  qed
qed

lemma add_packs_eq: "add_packs w ps es = es @ map (new_item w) ps"
  by (induction ps arbitrary: es) simp_all

lemma item_path_new_item [simp]: "item_path (new_item w p) = p"
  by (simp add: new_item_def new_PackEntity_def Let_def)

lemma map_item_path_new: "map item_path (map (new_item w) ps) = ps"
  by (induction ps) simp_all

lemma distinct_set_iter [simp]: "distinct (set_iter w a) = distinct a"
  by (simp add: set_iter_def)

lemma set_set_iter [simp]: "set (set_iter w a) = set a"
  by (simp add: set_iter_def)

lemma set_set_minus [simp]: "set (set_minus a b) = set a - set b"
  by (auto simp: set_minus_def)

lemma distinct_set_minus: "distinct a \<Longrightarrow> distinct (set_minus a b)"
  by (simp add: set_minus_def)

lemma set_py_set [simp]: "set (py_set xs) = set xs"
  by (simp add: py_set_def)

lemma distinct_py_set [simp]: "distinct (py_set xs)"
  by (simp add: py_set_def)

lemma distinct_map_sort_desc: "distinct (map item_path (sort_desc es)) = distinct (map item_path es)"
proof -
  have "mset (map item_path (sort_desc es)) = mset (map item_path es)"
    by (simp add: sort_desc_def)
  then show ?thesis by (rule mset_eq_imp_distinct_iff)
qed

lemma mset_sort_desc [simp]: "mset (sort_desc es) = mset es"
  by (simp add: sort_desc_def)

lemma set_sort_desc [simp]: "set (sort_desc es) = set es"
  by (simp add: sort_desc_def)

lemma rescan_eq:
  "rescan w es =
     (case remove_packs (gone w es) (added w es) of
        (Inl e, es2) \<Rightarrow> (Inl e, es2)
      | (Inr _, es2) \<Rightarrow> (Inr True, sort_desc es2))"
  by (simp add: rescan_def added_def gone_def Let_def)

lemma remove_gone_ok: "fst (remove_packs (gone w es) (added w es)) = Inr ()"
proof (rule remove_packs_ok)
  show "distinct (gone w es)"
    by (simp add: gone_def distinct_set_minus)
  show "set (gone w es) \<subseteq> item_path ` set (added w es)"
    by (auto simp: gone_def added_def add_packs_eq)
qed

lemma rescan_ok:
  "rescan w es = (Inr True, sort_desc (snd (remove_packs (gone w es) (added w es))))"
  using remove_gone_ok [of w es]
  by (cases "remove_packs (gone w es) (added w es)") (auto simp: rescan_eq split: sum.splits)

lemma map_item_path_added:
  "map item_path (added w es) =
     map item_path es @ set_iter w (set_minus (py_set (glob_packs w)) (py_set (map item_path es)))"
  by (simp add: added_def add_packs_eq map_item_path_new del: map_map)

lemma distinct_added:
  "distinct (map item_path es) \<Longrightarrow> distinct (map item_path (added w es))"
  by (auto simp: map_item_path_added distinct_set_minus)

lemma rescan_distinct:
  "distinct (map item_path es) \<Longrightarrow> distinct (map item_path (snd (rescan w es)))"
  by (simp add: rescan_ok distinct_map_sort_desc remove_packs_distinct distinct_added)

lemma update_eq:
  "update_pack_entity_cache w force s =
     (case stat_mtime w of
        None \<Rightarrow> (Inl OSError, s)
      | Some t \<Rightarrow>
          if \<not> force \<and> t \<le> db_st_mtime s then (Inr False, s)
          else (Inr True, s\<lparr>db_st_mtime := t,
                  db_entities := Some (snd (rescan w (case db_entities s of None \<Rightarrow> [] | Some es \<Rightarrow> es)))\<rparr>))"
proof (cases "db_entities s")
  case None
  then show ?thesis by (simp add: update_absent rescan_ok split: option.splits)
next
  case (Some es)
  then show ?thesis by (simp add: update_present rescan_ok split: option.splits)
qed

lemma get_entities_present [simp]: "db_entities s = Some es \<Longrightarrow> get_entities w s = (Inr es, s)"
  by (simp add: get_entities_def)

lemma sort_entities_present [simp]:
  "db_entities s = Some es \<Longrightarrow>
   sort_entities w s = (Inr (), s\<lparr>db_entities := Some (sort_desc es)\<rparr>)"
  by (simp add: sort_entities_def)

lemma scan_items_miss: "(scan_items h es = None) = (\<forall>it\<in>set es. sha_to_index it h = None)"
  by (induction es) (auto split: option.splits)

lemma scan_items_hit:
  "\<exists>it\<in>set es. sha_to_index it h \<noteq> None \<Longrightarrow>
   \<exists>pre x post index. es = pre @ x # post \<and> (\<forall>y\<in>set pre. sha_to_index y h = None)
      \<and> sha_to_index x h = Some index
      \<and> scan_items h es = Some ((entity x, index), pre @ x\<lparr>hits := hits x + 1\<rparr> # post)"
proof (induction es)
  case Nil
  then show ?case by simp
next
  case (Cons it es)
  show ?case
  proof (cases "sha_to_index it h")
    case (Some index)
    then have "it # es = [] @ it # es \<and> (\<forall>y\<in>set []. sha_to_index y h = None)
      \<and> sha_to_index it h = Some index
      \<and> scan_items h (it # es) = Some ((entity it, index), [] @ it\<lparr>hits := hits it + 1\<rparr> # es)"
      by simp
    then show ?thesis by blast
  next
    case None
    with Cons.prems have "\<exists>it\<in>set es. sha_to_index it h \<noteq> None" by auto
    from Cons.IH [OF this] obtain pre x post index where
      h: "es = pre @ x # post" "\<forall>y\<in>set pre. sha_to_index y h = None"
         "sha_to_index x h = Some index"
         "scan_items h es = Some ((entity x, index), pre @ x\<lparr>hits := hits x + 1\<rparr> # post)"
      by blast
    with None have "it # es = (it # pre) @ x # post \<and> (\<forall>y\<in>set (it # pre). sha_to_index y h = None)
      \<and> sha_to_index x h = Some index
      \<and> scan_items h (it # es) = Some ((entity x, index), (it # pre) @ x\<lparr>hits := hits x + 1\<rparr> # post)"
      by simp
    then show ?thesis by blast
  qed
qed

lemma pack_info_present:
  "db_entities s = Some es \<Longrightarrow> to_bin_sha sha = Inr h \<Longrightarrow>
   pack_info w s sha =
     (case scan_items h (presorted s es) of
        Some (r, es') \<Rightarrow> (Inr r, s\<lparr>db_entities := Some es', db_hit_count := db_hit_count s + 1\<rparr>)
      | None \<Rightarrow> (Inl (BadObject h), s\<lparr>db_entities := Some (presorted s es)\<rparr>))"
  by (cases "db_hit_count s mod sort_interval = 0")
     (auto simp: pack_info_def presorted_def split: option.splits)

lemma set_presorted [simp]: "set (presorted s es) = set es"
  by (simp add: presorted_def)

lemma mset_presorted [simp]: "mset (presorted s es) = mset es"
  by (simp add: presorted_def)


lemma registered_paths_eq:
  "registered_paths s = map item_path (case db_entities s of None \<Rightarrow> [] | Some es \<Rightarrow> es)"
  by (simp add: registered_paths_def split: option.splits)

lemma registered_paths_update [simp]:
  "registered_paths (s\<lparr>db_entities := Some es\<rparr>) = map item_path es"
  "registered_paths (s\<lparr>db_st_mtime := t\<rparr>) = registered_paths s"
  "registered_paths (s\<lparr>db_hit_count := n\<rparr>) = registered_paths s"
  by (simp_all add: registered_paths_def)

lemma update_distinct:
  assumes "distinct (registered_paths s)"
  shows "distinct (registered_paths (snd (update_pack_entity_cache w force s)))"
proof (cases "stat_mtime w")
  case None
  with assms show ?thesis by (simp add: update_eq)
next
  case (Some t)
  show ?thesis
  proof (cases "\<not> force \<and> t \<le> db_st_mtime s")
    case True
    with Some assms show ?thesis by (simp add: update_eq)
  next
    case False
    from assms have "distinct (map item_path (case db_entities s of None \<Rightarrow> [] | Some es \<Rightarrow> es))"
      by (simp add: registered_paths_eq)
    then have "distinct (map item_path (snd (rescan w (case db_entities s of None \<Rightarrow> [] | Some es \<Rightarrow> es))))"
      by (rule rescan_distinct)
    with Some False show ?thesis by (auto simp: update_eq)
  qed
qed

lemma set_cache_state:
  "snd (set_cache w s) = snd (update_pack_entity_cache w False (s\<lparr>db_entities := Some []\<rparr>))"
  by (simp add: set_cache_def split: prod.splits sum.splits)

lemma set_cache_distinct: "distinct (registered_paths (snd (set_cache w s)))"
proof -
  have "distinct (registered_paths (s\<lparr>db_entities := Some []\<rparr>))" by simp
  from update_distinct [OF this, of w False] show ?thesis
    by (simp add: set_cache_state)
qed

lemma get_entities_state:
  "snd (get_entities w s) = (case db_entities s of Some es \<Rightarrow> s | None \<Rightarrow> snd (set_cache w s))"
  by (simp add: get_entities_def split: option.splits prod.splits sum.splits)

lemma get_entities_distinct:
  "distinct (registered_paths s) \<Longrightarrow> distinct (registered_paths (snd (get_entities w s)))"
  using set_cache_distinct [of w s]
  by (cases "db_entities s") (simp_all add: get_entities_state)

lemma get_entities_result:
  "get_entities w s = (Inr es, s') \<Longrightarrow> db_entities s' = Some es"
  by (auto simp: get_entities_def split: option.splits prod.splits sum.splits)

lemma sort_entities_distinct:
  "distinct (registered_paths s) \<Longrightarrow> distinct (registered_paths (snd (sort_entities w s)))"
proof (cases "get_entities w s")
  case (Pair r s')
  assume d: "distinct (registered_paths s)"
  from get_entities_distinct [OF d, of w] Pair have d': "distinct (registered_paths s')" by simp
  show ?thesis
  proof (cases r)
    case (Inl e)
    with Pair d' show ?thesis by (simp add: sort_entities_def)
  next
    case (Inr es)
    with Pair have "get_entities w s = (Inr es, s')" by simp
    then have "db_entities s' = Some es" by (rule get_entities_result)
    with d' Pair Inr show ?thesis
      by (simp add: sort_entities_def distinct_map_sort_desc registered_paths_eq)
  qed
qed

lemma scan_items_paths:
  "scan_items h es = Some (r, es') \<Longrightarrow> map item_path es' = map item_path es"
  by (induction es arbitrary: r es') (auto split: option.splits)

lemma pack_info_distinct:
  assumes d: "distinct (registered_paths s)"
  shows "distinct (registered_paths (snd (pack_info w s sha)))"
proof -
  define p1 where "p1 = (if db_hit_count s mod sort_interval = 0 then sort_entities w s else (Inr (), s))"
  have d1: "distinct (registered_paths (snd p1))"
    using d sort_entities_distinct [OF d, of w] by (simp add: p1_def)
  obtain r1 s1 where p1: "p1 = (r1, s1)" by (cases p1)
  with d1 have ds1: "distinct (registered_paths s1)" by simp
  obtain r2 s2 where p2: "get_entities w s1 = (r2, s2)" by (cases "get_entities w s1")
  with get_entities_distinct [OF ds1, of w] have ds2: "distinct (registered_paths s2)" by simp
  have pi: "pack_info w s sha =
     (case p1 of
        (Inl e, s1) \<Rightarrow> (Inl e, s1)
      | (Inr _, s1) \<Rightarrow>
          (case to_bin_sha sha of
             Inl e \<Rightarrow> (Inl e, s1)
           | Inr bsha \<Rightarrow>
               (case get_entities w s1 of
                  (Inl e, s2) \<Rightarrow> (Inl e, s2)
                | (Inr es, s2) \<Rightarrow>
                    (case scan_items bsha es of
                       Some (r, es') \<Rightarrow>
                         (Inr r, s2\<lparr>db_entities := Some es', db_hit_count := db_hit_count s2 + 1\<rparr>)
                     | None \<Rightarrow> (Inl (BadObject bsha), s2)))))"
    by (simp add: pack_info_def p1_def)
  show ?thesis
  proof (cases r1)
    case (Inl e)
    with p1 ds1 show ?thesis by (simp add: pi)
  next
    case r1: (Inr u)
    show ?thesis
    proof (cases "to_bin_sha sha")
      case (Inl e)
      with p1 r1 ds1 show ?thesis by (simp add: pi)
    next
      case b: (Inr bsha)
      show ?thesis
      proof (cases r2)
        case (Inl e)
        with p1 r1 b p2 ds2 show ?thesis by (simp add: pi)
      next
        case r2: (Inr es)
        with p2 have "get_entities w s1 = (Inr es, s2)" by simp
        then have es: "db_entities s2 = Some es" by (rule get_entities_result)
        show ?thesis
        proof (cases "scan_items bsha es")
          case None
          with p1 r1 b p2 r2 ds2 show ?thesis by (simp add: pi)
        next
          case (Some a)
          obtain r es' where a: "a = (r, es')" by (cases a)
          with Some have "map item_path es' = map item_path es" by (simp add: scan_items_paths)
          with ds2 es have "distinct (map item_path es')" by (simp add: registered_paths_eq)
          with p1 r1 b p2 r2 Some a show ?thesis by (simp add: pi)
        qed
      qed
    qed
  qed
qed

lemma has_object_state: "snd (has_object w s sha) = snd (pack_info w s sha)"
  by (simp add: has_object_def split: prod.splits sum.splits error.splits)

lemma info_state: "snd (info w s sha) = snd (pack_info w s sha)"
  by (simp add: info_def split: prod.splits sum.splits)

lemma stream_state: "snd (stream w s sha) = snd (pack_info w s sha)"
  by (simp add: stream_def split: prod.splits sum.splits)

lemma entities_state: "snd (entities w s) = snd (get_entities w s)"
  by (simp add: entities_def split: prod.splits sum.splits)

lemma sha_iter_state: "snd (sha_iter w s) = snd (get_entities w s)"
  by (simp add: sha_iter_def entities_def split: prod.splits sum.splits)

lemma size_db_state: "snd (size_db w s) = snd (get_entities w s)"
  by (simp add: size_db_def split: prod.splits sum.splits)

lemma exec_distinct:
  "distinct (registered_paths s) \<Longrightarrow> distinct (registered_paths (exec w c s))"
  by (cases c)
     (simp_all add: update_distinct pack_info_distinct has_object_state info_state stream_state
        entities_state sha_iter_state size_db_state get_entities_distinct store_def store_async_def)

lemma run_distinct:
  "distinct (registered_paths s) \<Longrightarrow> distinct (registered_paths (run s calls))"
  by (induction calls arbitrary: s) (auto simp: exec_distinct)


lemma hex_to_bin_length: "hex_to_bin hx = Inr b \<Longrightarrow> length hx = 2 * length b"
  by (induction hx arbitrary: b rule: hex_to_bin.induct) (auto split: option.splits sum.splits)

lemma to_bin_sha_hex:
  "hex_to_bin hx = Inr b \<Longrightarrow> length b = 20 \<Longrightarrow> to_bin_sha hx = to_bin_sha b"
  using hex_to_bin_length [of hx b] by (simp add: to_bin_sha_def)

lemma hex_digit_hex_char: "n < 16 \<Longrightarrow> hex_digit (hex_char n) = Some n"
  by (simp add: hex_digit_def hex_char_def Let_def)

lemma of_char_high_nibble: "(of_char c :: nat) div 16 < 16"
proof -
  have "(of_char c :: nat) mod 256 = of_char c" by (rule of_char_mod_256)
  then have "(of_char c :: nat) < 256" by (metis mod_less_divisor zero_less_numeral)
  then have "(of_char c :: nat) < 16 * 16" by simp
  then show ?thesis by (rule less_mult_imp_div_less)
qed

lemma hex_to_bin_bin_to_hex: "hex_to_bin (bin_to_hex b) = Inr b"
  by (induction b) (simp_all add: hex_digit_hex_char of_char_high_nibble)

lemma length_bin_to_hex: "length (bin_to_hex b) = 2 * length b"
  by (induction b) simp_all

lemma update_hit_count:
  "db_hit_count (snd (update_pack_entity_cache w force s)) = db_hit_count s"
  by (simp add: update_eq split: option.splits)

lemma get_entities_hit_count: "db_hit_count (snd (get_entities w s)) = db_hit_count s"
  by (cases "db_entities s") (simp_all add: get_entities_state set_cache_state update_hit_count)

lemma get_entities_idem:
  assumes "get_entities w s = (Inr es, s0)"
  shows "get_entities w s0 = (Inr es, s0)"
proof -
  from assms have "db_entities s0 = Some es" by (rule get_entities_result)
  then show ?thesis by simp
qed

lemma pack_info_first_read:
  assumes g: "get_entities w s = (Inr es, s0)" and b: "to_bin_sha sha = Inr h"
  shows "pack_info w s sha = pack_info w s0 sha"
proof -
  from g have es: "db_entities s0 = Some es" by (rule get_entities_result)
  from g have "db_hit_count (snd (get_entities w s)) = db_hit_count s0" by simp
  then have hc: "db_hit_count s0 = db_hit_count s" by (simp add: get_entities_hit_count)
  show ?thesis
  proof (cases "db_hit_count s mod sort_interval = 0")
    case True
    with g b es hc show ?thesis
      by (simp add: pack_info_def sort_entities_def)
  next
    case False
    with g b es hc show ?thesis
      by (simp add: pack_info_def)
  qed
qed

lemma has_object_first_read:
  assumes "get_entities w s = (Inr es, s0)" and "to_bin_sha sha = Inr h"
  shows "has_object w s sha = has_object w s0 sha"
  by (simp add: has_object_def pack_info_first_read [OF assms])

lemma map_slot_of_Cons:
  "y \<notin> set ys \<Longrightarrow> map (slot_of (y # ys)) ys = map (\<lambda>x. Suc (slot_of ys x)) ys"
  by (rule map_cong) auto

lemma sorted_map_Suc: "sorted (map (\<lambda>x. Suc (f x)) xs) = sorted (map f xs)"
  by (induction xs) auto

lemma sorted_slot_of: "distinct ys \<Longrightarrow> sorted (map (slot_of ys) ys)"
proof (induction ys)
  case Nil
  show ?case by simp
next
  case (Cons y ys)
  then have "sorted (map (\<lambda>x. Suc (slot_of ys x)) ys)" by (simp add: sorted_map_Suc)
  with Cons.prems show ?case by (simp add: map_slot_of_Cons del: slot_of.simps) simp
qed

lemma inj_on_slot_of: "inj_on (slot_of ys) (set ys)"
proof (induction ys)
  case Nil
  show ?case by simp
next
  case (Cons y ys)
  show ?case
  proof (rule inj_onI)
    fix a b
    assume a: "a \<in> set (y # ys)" and b: "b \<in> set (y # ys)"
      and e: "slot_of (y # ys) a = slot_of (y # ys) b"
    show "a = b"
    proof (cases "a = y")
      case True
      with e show ?thesis by (simp split: if_splits)
    next
      case False
      with e have "b \<noteq> y" by (auto split: if_splits)
      with False a b e have "a \<in> set ys" "b \<in> set ys" "slot_of ys a = slot_of ys b" by auto
      with Cons.IH show ?thesis by (auto dest: inj_onD)
    qed
  qed
qed

lemma set_iter_any_order:
  assumes "distinct ys" and "mset a = mset ys"
  shows "set_iter (w\<lparr>set_slot := slot_of ys\<rparr>) a = ys"
proof -
  from assms(2) have "set a = set ys" by (rule mset_eq_setD)
  with inj_on_slot_of [of ys] have "inj_on (slot_of ys) (set a)" by simp
  with assms show ?thesis
    by (simp add: set_iter_def sort_key_inj_key_eq sorted_slot_of)
qed

lemma reduce_add_sum: "reduce_add (x # xs) = Inr (sum_list (x # xs))"
proof -
  have "foldl (+) a xs = a + sum_list xs" for a :: nat
    by (induction xs arbitrary: a) simp_all
  then show ?thesis by (simp add: reduce_add_def)
qed

lemma size_db_nonempty:
  "db_entities s = Some (it # es) \<Longrightarrow>
   size_db w s = (Inr (sum_list (map (\<lambda>it. index_size (entity it)) (it # es))), s)"
  by (simp add: size_db_def reduce_add_sum del: sum_list.Cons)

lemma count_added:
  assumes "it \<in> set es"
  shows "count (mset (added w es)) it = count (mset es) it"
proof -
  have "it \<notin> new_item w ` (set (glob_packs w) - item_path ` set es)"
  proof
    assume "it \<in> new_item w ` (set (glob_packs w) - item_path ` set es)"
    then obtain p where "it = new_item w p" "p \<notin> item_path ` set es" by auto
    with assms show False by (metis image_eqI item_path_new_item)
  qed
  then have "count (mset (map (new_item w)
      (set_iter w (set_minus (py_set (glob_packs w)) (py_set (map item_path es)))))) it = 0"
    by (simp add: count_eq_zero_iff)
  then show ?thesis by (simp add: added_def add_packs_eq)
qed


lemma pack_info_resolves:
  assumes "db_entities s = Some es" and "to_bin_sha sha = Inr h"
    and "\<exists>it\<in>set es. sha_to_index it h \<noteq> None"
  shows "\<exists>pre x post index.
           presorted s es = pre @ x # post
         \<and> (\<forall>y\<in>set pre. sha_to_index y h = None)
         \<and> sha_to_index x h = Some index
         \<and> pack_info w s sha =
             (Inr (entity x, index),
              s\<lparr>db_entities := Some (pre @ x\<lparr>hits := hits x + 1\<rparr> # post),
                db_hit_count := db_hit_count s + 1\<rparr>)"
proof -
  from assms(3) have "\<exists>it\<in>set (presorted s es). sha_to_index it h \<noteq> None" by simp
  from scan_items_hit [OF this] obtain pre x post index where
    h: "presorted s es = pre @ x # post" "\<forall>y\<in>set pre. sha_to_index y h = None"
       "sha_to_index x h = Some index"
       "scan_items h (presorted s es) = Some ((entity x, index), pre @ x\<lparr>hits := hits x + 1\<rparr> # post)"
    by blast
  from h(4) have "pack_info w s sha =
             (Inr (entity x, index),
              s\<lparr>db_entities := Some (pre @ x\<lparr>hits := hits x + 1\<rparr> # post),
                db_hit_count := db_hit_count s + 1\<rparr>)"
    by (simp add: pack_info_present [OF assms(1) assms(2)])
  with h(1) h(2) h(3) show ?thesis by blast
qed

lemma pack_info_resolves_read:
  assumes "get_entities w s = (Inr es, s0)" and "to_bin_sha sha = Inr h"
    and "\<exists>it\<in>set es. sha_to_index it h \<noteq> None"
  shows "\<exists>pre x post index.
           presorted s0 es = pre @ x # post
         \<and> (\<forall>y\<in>set pre. sha_to_index y h = None)
         \<and> sha_to_index x h = Some index
         \<and> pack_info w s sha =
             (Inr (entity x, index),
              s0\<lparr>db_entities := Some (pre @ x\<lparr>hits := hits x + 1\<rparr> # post),
                 db_hit_count := db_hit_count s0 + 1\<rparr>)"
proof -
  from assms(1) have es: "db_entities s0 = Some es" by (rule get_entities_result)
  from pack_info_resolves [OF es assms(2) assms(3), of w]
  show ?thesis by (simp add: pack_info_first_read [OF assms(1) assms(2)])
qed

subsection \<open>Evaluating the small directory\<close>

lemma ex_new_item_a: "new_item (ex_disk packs t) ''pack-a.pack'' = ex_item_a"
  by (simp add: new_item_def new_PackEntity_def ex_disk_def ex_item_a_def ex_pack_a_def Let_def)

lemma ex_new_item_b: "new_item (ex_disk packs t) ''pack-b.pack'' = ex_item_b"
  by (simp add: new_item_def new_PackEntity_def ex_disk_def ex_item_b_def ex_pack_b_def Let_def)

lemma ex_item_paths [simp]:
  "item_path ex_item_a = ''pack-a.pack''" "item_path ex_item_b = ''pack-b.pack''"
  by (simp_all add: ex_item_a_def ex_item_b_def ex_pack_a_def ex_pack_b_def)

lemma ex_item_hits [simp]: "hits ex_item_a = 7" "hits ex_item_b = 9"
  by (simp_all add: ex_item_a_def ex_item_b_def)

lemma ex_disk_simps [simp]:
  "stat_mtime (ex_disk packs t) = Some t" "glob_packs (ex_disk packs t) = packs"
  "set_slot (ex_disk packs t) = length"
  by (simp_all add: ex_disk_def)

lemma ex_rescan_empty: "rescan (ex_disk [] t) [] = (Inr True, [])"
  by (simp add: rescan_def py_set_def set_minus_def set_iter_def sort_desc_def)

lemma ex_rescan_load_a: "rescan (ex_disk [''pack-a.pack''] t) [] = (Inr True, [ex_item_a])"
  by (simp add: rescan_def py_set_def set_minus_def set_iter_def sort_desc_def ex_new_item_a)

lemma ex_rescan_same_a:
  "rescan (ex_disk [''pack-a.pack''] t) [ex_item_a] = (Inr True, [ex_item_a])"
  by (simp add: rescan_def py_set_def set_minus_def set_iter_def sort_desc_def)

lemma ex_rescan_drop_b:
  "rescan (ex_disk [''pack-a.pack''] t) [ex_item_a, ex_item_b] = (Inr True, [ex_item_a])"
  by (simp add: rescan_def py_set_def set_minus_def set_iter_def sort_desc_def Let_def)

lemma ex_rescan_load_ab:
  "rescan (ex_disk [''pack-a.pack'', ''pack-b.pack''] t) [] = (Inr True, [ex_item_b, ex_item_a])"
  by (simp add: rescan_def py_set_def set_minus_def set_iter_def sort_desc_def
        ex_new_item_a ex_new_item_b)

section \<open>The claims\<close>

text \<open>
  C1: a reconciliation that the staleness gate does not skip returns true if a record was
  inserted or removed, and false if none was. The code returns \<open>True\<close> at the end of every
  call that passes the gate (line 159). In the run below the first call registers pack
  \<open>a\<close>; the second call, forced, over the same directory, inserts and removes nothing,
  leaves the object exactly as it was, and returns \<open>True\<close> where the claim and the
  docstring of the method have \<open>False\<close>.
\<close>

theorem update_true_without_change:
  "snd (update_pack_entity_cache (ex_disk [''pack-a.pack''] 1) False init)
     = \<lparr>db_entities = Some [ex_item_a], db_hit_count = 0, db_st_mtime = 1\<rparr>
   \<and> update_pack_entity_cache (ex_disk [''pack-a.pack''] 1) True
         \<lparr>db_entities = Some [ex_item_a], db_hit_count = 0, db_st_mtime = 1\<rparr>
     = (Inr True, \<lparr>db_entities = Some [ex_item_a], db_hit_count = 0, db_st_mtime = 1\<rparr>)"
  by (simp add: update_eq init_def ex_rescan_load_a ex_rescan_same_a)

text \<open>
  C2: \<open>size\<close> returns the sum of the object counts of the registered packs, and 0 for an
  empty registry. On a fresh object over a directory without packs the registry is loaded
  empty and \<open>reduce\<close>, called without an initial value, raises \<open>TypeError\<close>: the code
  fails where the claim has 0.
\<close>

theorem size_fails_on_empty_registry:
  "size_db (ex_disk [] 1) init
     = (Inl TypeError, \<lparr>db_entities = Some [], db_hit_count = 0, db_st_mtime = 1\<rparr>)"
  by (simp add: size_db_def get_entities_def set_cache_def update_eq init_def ex_rescan_empty
        reduce_add_def)

text \<open>
  C3: when the hash resolves in a registered pack, \<open>_pack_info\<close> returns the first record,
  in the order of the list it scans, whose lookup resolves the hash, with the index found;
  that record's hits and the global hit count grow by one and nothing else changes. The
  registry \<open>es\<close> is what the read of \<open>self._entities\<close> gives (the list of the object, loaded
  first on a fresh object), and the list scanned is that registry, sorted first when the
  global hit count is a multiple of the sort interval.
\<close>

theorem pack_info_hit:
  assumes "get_entities w s = (Inr es, s0)" and "to_bin_sha sha = Inr h"
    and "\<exists>it\<in>set es. sha_to_index it h \<noteq> None"
  shows "\<exists>pre x post index.
           presorted s0 es = pre @ x # post
         \<and> (\<forall>y\<in>set pre. sha_to_index y h = None)
         \<and> sha_to_index x h = Some index
         \<and> pack_info w s sha =
             (Inr (entity x, index),
              s0\<lparr>db_entities := Some (pre @ x\<lparr>hits := hits x + 1\<rparr> # post),
                 db_hit_count := db_hit_count s0 + 1\<rparr>)"
  using assms by (rule pack_info_resolves_read)

theorem pack_info_hit_witness:
  "get_entities (ex_disk [] 1) ex_db = (Inr [ex_item_a, ex_item_b], ex_db)
   \<and> to_bin_sha ex_sha_a = Inr ex_sha_a
   \<and> (\<exists>it\<in>set [ex_item_a, ex_item_b]. sha_to_index it ex_sha_a \<noteq> None)
   \<and> presorted ex_db [ex_item_a, ex_item_b] = [ex_item_b, ex_item_a]
   \<and> pack_info (ex_disk [] 1) ex_db ex_sha_a =
        (Inr (ex_pack_a, 2),
         \<lparr>db_entities = Some [ex_item_b, ex_item_a\<lparr>hits := 8\<rparr>], db_hit_count = 1, db_st_mtime = 1\<rparr>)"
proof -
  have h1: "get_entities (ex_disk [] 1) ex_db = (Inr [ex_item_a, ex_item_b], ex_db)"
    by (simp add: ex_db_def)
  have h2: "to_bin_sha ex_sha_a = Inr ex_sha_a"
    by (simp add: to_bin_sha_def ex_sha_a_def)
  have h3: "\<exists>it\<in>set [ex_item_a, ex_item_b]. sha_to_index it ex_sha_a \<noteq> None"
    by (simp add: ex_item_a_def ex_pack_a_def)
  have p: "presorted ex_db [ex_item_a, ex_item_b] = [ex_item_b, ex_item_a]"
    by (simp add: presorted_def ex_db_def sort_interval_def sort_desc_def)
  have na: "sha_to_index ex_item_a ex_sha_a = Some 2" "entity ex_item_a = ex_pack_a"
    by (simp_all add: ex_item_a_def ex_pack_a_def)
  have nb: "sha_to_index ex_item_b ex_sha_a = None"
    by (simp add: ex_item_b_def ex_pack_b_def ex_sha_a_def ex_sha_b_def)
  from pack_info_hit [OF h1 h2 h3] obtain pre x post index where
    r: "presorted ex_db [ex_item_a, ex_item_b] = pre @ x # post"
       "\<forall>y\<in>set pre. sha_to_index y ex_sha_a = None"
       "sha_to_index x ex_sha_a = Some index"
       "pack_info (ex_disk [] 1) ex_db ex_sha_a =
          (Inr (entity x, index),
           ex_db\<lparr>db_entities := Some (pre @ x\<lparr>hits := hits x + 1\<rparr> # post),
                 db_hit_count := db_hit_count ex_db + 1\<rparr>)"
    by blast
  from r(1) p have split: "[ex_item_b, ex_item_a] = pre @ x # post" by simp
  have "pre = [ex_item_b] \<and> x = ex_item_a \<and> post = []"
  proof (cases pre)
    case Nil
    with split have "x = ex_item_b" by simp
    with r(3) nb show ?thesis by simp
  next
    case (Cons y ys)
    with split have y: "y = ex_item_b" and rest: "[ex_item_a] = ys @ x # post" by simp_all
    show ?thesis
    proof (cases ys)
      case Nil
      with rest Cons y show ?thesis by simp
    next
      case (Cons z zs)
      with rest show ?thesis by simp
    qed
  qed
  with r(3) r(4) na have "pack_info (ex_disk [] 1) ex_db ex_sha_a =
        (Inr (ex_pack_a, 2),
         \<lparr>db_entities = Some [ex_item_b, ex_item_a\<lparr>hits := 8\<rparr>], db_hit_count = 1, db_st_mtime = 1\<rparr>)"
    by (simp add: ex_db_def)
  with h1 h2 h3 p show ?thesis by blast
qed

text \<open>
  C4: when the hash resolves in no registered pack, \<open>_pack_info\<close> raises \<open>BadObject\<close>, and
  neither a record's hits nor the global hit count changes: the registry holds the same
  records, at most in another order (the presort). \<open>has_object\<close> returns \<open>False\<close> in
  exactly this case and \<open>True\<close> otherwise.
\<close>

theorem pack_info_miss:
  assumes "get_entities w s = (Inr es, s0)" and "to_bin_sha sha = Inr h"
  shows "((\<forall>it\<in>set es. sha_to_index it h = None) \<longrightarrow>
            pack_info w s sha = (Inl (BadObject h), s0\<lparr>db_entities := Some (presorted s0 es)\<rparr>)
          \<and> has_object w s sha = (Inr False, s0\<lparr>db_entities := Some (presorted s0 es)\<rparr>))
       \<and> mset (presorted s0 es) = mset es
       \<and> fst (has_object w s sha) = Inr (\<exists>it\<in>set es. sha_to_index it h \<noteq> None)"
proof -
  from assms(1) have es: "db_entities s0 = Some es" by (rule get_entities_result)
  have pi: "pack_info w s sha = pack_info w s0 sha"
    by (rule pack_info_first_read [OF assms])
  have miss: "pack_info w s sha = (Inl (BadObject h), s0\<lparr>db_entities := Some (presorted s0 es)\<rparr>)"
    if "\<forall>it\<in>set es. sha_to_index it h = None"
  proof -
    from that have "scan_items h (presorted s0 es) = None" by (simp add: scan_items_miss)
    then show ?thesis by (simp add: pi pack_info_present [OF es assms(2)])
  qed
  have hit: "fst (has_object w s sha) = Inr True" if "\<exists>it\<in>set es. sha_to_index it h \<noteq> None"
  proof -
    from pack_info_resolves_read [OF assms that] obtain r s' where "pack_info w s sha = (Inr r, s')"
      by blast
    then show ?thesis by (simp add: has_object_def)
  qed
  show ?thesis
  proof (cases "\<forall>it\<in>set es. sha_to_index it h = None")
    case True
    with miss show ?thesis by (simp add: has_object_def)
  next
    case False
    with hit show ?thesis by auto
  qed
qed

theorem pack_info_miss_witness:
  "get_entities (ex_disk [''pack-a.pack''] 1) init
      = (Inr [ex_item_a], \<lparr>db_entities = Some [ex_item_a], db_hit_count = 0, db_st_mtime = 1\<rparr>)
   \<and> to_bin_sha ex_sha_c = Inr ex_sha_c
   \<and> sha_to_index ex_item_a ex_sha_c = None
   \<and> pack_info (ex_disk [''pack-a.pack''] 1) init ex_sha_c =
        (Inl (BadObject ex_sha_c),
         \<lparr>db_entities = Some [ex_item_a], db_hit_count = 0, db_st_mtime = 1\<rparr>)
   \<and> has_object (ex_disk [''pack-a.pack''] 1) init ex_sha_c =
        (Inr False, \<lparr>db_entities = Some [ex_item_a], db_hit_count = 0, db_st_mtime = 1\<rparr>)
   \<and> fst (has_object (ex_disk [''pack-a.pack''] 1) init ex_sha_a) = Inr True"
proof -
  have h1: "get_entities (ex_disk [''pack-a.pack''] 1) init
      = (Inr [ex_item_a], \<lparr>db_entities = Some [ex_item_a], db_hit_count = 0, db_st_mtime = 1\<rparr>)"
    by (simp add: get_entities_def set_cache_def update_eq init_def ex_rescan_load_a)
  have h2: "to_bin_sha ex_sha_c = Inr ex_sha_c"
    by (simp add: to_bin_sha_def ex_sha_c_def)
  have h2a: "to_bin_sha ex_sha_a = Inr ex_sha_a"
    by (simp add: to_bin_sha_def ex_sha_a_def)
  have na: "sha_to_index ex_item_a ex_sha_c = None"
    by (simp add: ex_item_a_def ex_pack_a_def ex_sha_a_def ex_sha_c_def)
  have h4: "sha_to_index ex_item_a ex_sha_a \<noteq> None"
    by (simp add: ex_item_a_def ex_pack_a_def)
  have p: "presorted \<lparr>db_entities = Some [ex_item_a], db_hit_count = 0, db_st_mtime = 1\<rparr> [ex_item_a]
      = [ex_item_a]"
    by (simp add: presorted_def sort_desc_def)
  from pack_info_miss [OF h1 h2] na p
  have m: "pack_info (ex_disk [''pack-a.pack''] 1) init ex_sha_c =
        (Inl (BadObject ex_sha_c),
         \<lparr>db_entities = Some [ex_item_a], db_hit_count = 0, db_st_mtime = 1\<rparr>)
      \<and> has_object (ex_disk [''pack-a.pack''] 1) init ex_sha_c =
        (Inr False, \<lparr>db_entities = Some [ex_item_a], db_hit_count = 0, db_st_mtime = 1\<rparr>)"
    by simp
  from pack_info_miss [OF h1 h2a] h4
  have t: "fst (has_object (ex_disk [''pack-a.pack''] 1) init ex_sha_a) = Inr True"
    by simp
  from h1 h2 na m t show ?thesis by blast
qed

text \<open>
  C5: with \<open>force\<close> false and a directory modification time that is not after the stored
  marker, \<open>update_pack_entity_cache\<close> returns \<open>False\<close> and leaves the object as it was,
  whatever the directory holds (the listing of the directory has no part in the result).
  In particular the second of two unforced calls over the same directory returns \<open>False\<close>
  and changes nothing.
\<close>

theorem update_gate:
  assumes "stat_mtime w = Some t"
  shows "(t \<le> db_st_mtime s \<longrightarrow> update_pack_entity_cache w False s = (Inr False, s))
       \<and> update_pack_entity_cache w False (snd (update_pack_entity_cache w False s))
           = (Inr False, snd (update_pack_entity_cache w False s))"
  using assms by (simp add: update_eq)

theorem update_gate_witness:
  "stat_mtime (ex_disk [''pack-a.pack''] 1) = Some 1
   \<and> (1 \<le> db_st_mtime ex_db \<and>
        update_pack_entity_cache (ex_disk [''pack-a.pack''] 1) False ex_db = (Inr False, ex_db))
   \<and> snd (update_pack_entity_cache (ex_disk [''pack-a.pack''] 1) False init)
        = \<lparr>db_entities = Some [ex_item_a], db_hit_count = 0, db_st_mtime = 1\<rparr>
   \<and> update_pack_entity_cache (ex_disk [''pack-a.pack''] 1) False
        \<lparr>db_entities = Some [ex_item_a], db_hit_count = 0, db_st_mtime = 1\<rparr>
        = (Inr False, \<lparr>db_entities = Some [ex_item_a], db_hit_count = 0, db_st_mtime = 1\<rparr>)"
proof -
  have h: "stat_mtime (ex_disk [''pack-a.pack''] 1) = Some 1" by simp
  have m: "1 \<le> db_st_mtime ex_db" by (simp add: ex_db_def)
  have f: "snd (update_pack_entity_cache (ex_disk [''pack-a.pack''] 1) False init)
        = \<lparr>db_entities = Some [ex_item_a], db_hit_count = 0, db_st_mtime = 1\<rparr>"
    by (simp add: update_eq init_def ex_rescan_load_a)
  from update_gate [OF h, of ex_db] m
  have a: "update_pack_entity_cache (ex_disk [''pack-a.pack''] 1) False ex_db = (Inr False, ex_db)"
    by simp
  from update_gate [OF h, of init] f
  have b: "update_pack_entity_cache (ex_disk [''pack-a.pack''] 1) False
        \<lparr>db_entities = Some [ex_item_a], db_hit_count = 0, db_st_mtime = 1\<rparr>
        = (Inr False, \<lparr>db_entities = Some [ex_item_a], db_hit_count = 0, db_st_mtime = 1\<rparr>)"
    by simp
  from h m a f b show ?thesis by blast
qed

text \<open>
  C6: \<open>store\<close> fails with \<open>UnsupportedOperation\<close> for every input and every object, and
  the object (records, hit counts, staleness marker) is the one before the call.
\<close>

theorem store_unsupported: "store istream s = (Inl UnsupportedOperation, s)"
  by (simp add: store_def)

theorem store_unsupported_witness:
  "store ''object'' ex_db = (Inl UnsupportedOperation, ex_db)"
  using store_unsupported [of "''object''" ex_db] by simp

text \<open>
  C7: in the removal step of \<open>update_pack_entity_cache\<close> every visited path finds its
  record: the removal loop, run on the paths and the list the method gives it, ends
  without a failed assertion, so no call of the method raises \<open>AssertionError\<close>, for any
  object, any directory and any order of iteration over the sets.
\<close>

theorem removal_assertion_holds:
  "fst (remove_packs (gone w es) (added w es)) = Inr ()
   \<and> fst (rescan w es) = Inr True
   \<and> fst (update_pack_entity_cache w force s) \<noteq> Inl AssertionError"
  by (simp add: remove_gone_ok rescan_ok update_eq split: option.splits)

theorem removal_assertion_holds_witness:
  "gone (ex_disk [''pack-a.pack''] 2) [ex_item_a, ex_item_b] = [''pack-b.pack'']
   \<and> added (ex_disk [''pack-a.pack''] 2) [ex_item_a, ex_item_b] = [ex_item_a, ex_item_b]
   \<and> remove_packs [''pack-b.pack''] [ex_item_a, ex_item_b] = (Inr (), [ex_item_a])
   \<and> fst (rescan (ex_disk [''pack-a.pack''] 2) [ex_item_a, ex_item_b]) = Inr True
   \<and> fst (update_pack_entity_cache (ex_disk [''pack-a.pack''] 2) False ex_db) \<noteq> Inl AssertionError"
proof -
  have g: "gone (ex_disk [''pack-a.pack''] 2) [ex_item_a, ex_item_b] = [''pack-b.pack'']"
    by (simp add: gone_def py_set_def set_minus_def set_iter_def)
  have a: "added (ex_disk [''pack-a.pack''] 2) [ex_item_a, ex_item_b] = [ex_item_a, ex_item_b]"
    by (simp add: added_def py_set_def set_minus_def set_iter_def)
  have r: "remove_packs [''pack-b.pack''] [ex_item_a, ex_item_b] = (Inr (), [ex_item_a])"
    by (simp add: Let_def)
  from removal_assertion_holds [of "ex_disk [''pack-a.pack''] 2" "[ex_item_a, ex_item_b]" False ex_db]
    g a r show ?thesis
    by simp
qed

text \<open>
  C8: in every object reached from \<open>__init__\<close> by any calls of the methods, over any
  directories, the registered paths are pairwise distinct.
\<close>

theorem registered_paths_distinct: "distinct (registered_paths (run init calls))"
  by (rule run_distinct) (simp add: init_def registered_paths_def)

theorem registered_paths_distinct_witness:
  "registered_paths (run init
       [(ex_disk [''pack-a.pack'', ''pack-b.pack''] 1, Update False),
        (ex_disk [''pack-a.pack'', ''pack-b.pack''] 1, HasObject ex_sha_a),
        (ex_disk [''pack-a.pack'', ''pack-b.pack''] 1, Store ()),
        (ex_disk [''pack-a.pack''] 2, Update False)])
     = [''pack-a.pack'']
   \<and> distinct (registered_paths (run init
       [(ex_disk [''pack-a.pack'', ''pack-b.pack''] 1, Update False),
        (ex_disk [''pack-a.pack'', ''pack-b.pack''] 1, HasObject ex_sha_a),
        (ex_disk [''pack-a.pack'', ''pack-b.pack''] 1, Store ()),
        (ex_disk [''pack-a.pack''] 2, Update False)]))"
proof -
  have s1: "snd (update_pack_entity_cache (ex_disk [''pack-a.pack'', ''pack-b.pack''] 1) False init)
       = \<lparr>db_entities = Some [ex_item_b, ex_item_a], db_hit_count = 0, db_st_mtime = 1\<rparr>"
    by (simp add: update_eq init_def ex_rescan_load_ab)
  have b: "to_bin_sha ex_sha_a = Inr ex_sha_a"
    by (simp add: to_bin_sha_def ex_sha_a_def)
  have sc: "scan_items ex_sha_a [ex_item_b, ex_item_a]
       = Some ((ex_pack_a, 2), [ex_item_b, ex_item_a\<lparr>hits := 8\<rparr>])"
    by (simp add: ex_item_a_def ex_item_b_def ex_pack_a_def ex_pack_b_def ex_sha_a_def ex_sha_b_def)
  have ps: "presorted \<lparr>db_entities = Some [ex_item_b, ex_item_a], db_hit_count = 0, db_st_mtime = 1\<rparr>
        [ex_item_b, ex_item_a] = [ex_item_b, ex_item_a]"
    by (simp add: presorted_def sort_desc_def)
  have s2: "snd (has_object (ex_disk [''pack-a.pack'', ''pack-b.pack''] 1)
        \<lparr>db_entities = Some [ex_item_b, ex_item_a], db_hit_count = 0, db_st_mtime = 1\<rparr> ex_sha_a)
       = \<lparr>db_entities = Some [ex_item_b, ex_item_a\<lparr>hits := 8\<rparr>], db_hit_count = 1, db_st_mtime = 1\<rparr>"
    by (simp add: has_object_state pack_info_present [OF _ b] ps sc del: scan_items.simps)
  have rs: "rescan (ex_disk [''pack-a.pack''] 2) [ex_item_b, ex_item_a\<lparr>hits := 8\<rparr>]
       = (Inr True, [ex_item_a\<lparr>hits := 8\<rparr>])"
    by (simp add: rescan_def py_set_def set_minus_def set_iter_def sort_desc_def Let_def)
  have s3: "snd (update_pack_entity_cache (ex_disk [''pack-a.pack''] 2) False
        \<lparr>db_entities = Some [ex_item_b, ex_item_a\<lparr>hits := 8\<rparr>], db_hit_count = 1, db_st_mtime = 1\<rparr>)
       = \<lparr>db_entities = Some [ex_item_a\<lparr>hits := 8\<rparr>], db_hit_count = 1, db_st_mtime = 2\<rparr>"
    by (simp add: update_eq rs)
  have "registered_paths (run init
       [(ex_disk [''pack-a.pack'', ''pack-b.pack''] 1, Update False),
        (ex_disk [''pack-a.pack'', ''pack-b.pack''] 1, HasObject ex_sha_a),
        (ex_disk [''pack-a.pack'', ''pack-b.pack''] 1, Store ()),
        (ex_disk [''pack-a.pack''] 2, Update False)])
     = [''pack-a.pack'']"
    by (simp add: s1 s2 s3 store_def registered_paths_def)
  with registered_paths_distinct [of
       "[(ex_disk [''pack-a.pack'', ''pack-b.pack''] 1, Update False),
        (ex_disk [''pack-a.pack'', ''pack-b.pack''] 1, HasObject ex_sha_a),
        (ex_disk [''pack-a.pack'', ''pack-b.pack''] 1, Store ()),
        (ex_disk [''pack-a.pack''] 2, Update False)]"]
  show ?thesis by blast
qed

text \<open>
  C9: a hash in hexadecimal form and the 20 bytes it denotes give the same result, and
  leave the same object, in \<open>_pack_info\<close>, \<open>has_object\<close>, \<open>info\<close> and \<open>stream\<close>.
\<close>

theorem lookup_hex_same_as_binary:
  assumes "hex_to_bin hx = Inr b" and "length b = 20"
  shows "pack_info w s hx = pack_info w s b
       \<and> has_object w s hx = has_object w s b
       \<and> info w s hx = info w s b
       \<and> stream w s hx = stream w s b"
proof -
  have "pack_info w s hx = pack_info w s b"
    unfolding pack_info_def to_bin_sha_hex [OF assms] by (rule refl)
  then show ?thesis by (simp add: has_object_def info_def stream_def)
qed

theorem lookup_hex_same_as_binary_witness:
  "hex_to_bin ex_hex_a = Inr ex_sha_a
   \<and> length ex_sha_a = 20
   \<and> pack_info (ex_disk [] 1) ex_db ex_hex_a = pack_info (ex_disk [] 1) ex_db ex_sha_a
   \<and> has_object (ex_disk [] 1) ex_db ex_hex_a = has_object (ex_disk [] 1) ex_db ex_sha_a
   \<and> info (ex_disk [] 1) ex_db ex_hex_a = info (ex_disk [] 1) ex_db ex_sha_a
   \<and> stream (ex_disk [] 1) ex_db ex_hex_a = stream (ex_disk [] 1) ex_db ex_sha_a"
proof -
  have c: "char_of (97::nat) = CHR ''a''"
    by code_simp
  have h1: "hex_to_bin ex_hex_a = Inr ex_sha_a"
    by (simp add: ex_hex_a_def ex_sha_a_def hex_digit_def c)
  have h2: "length ex_sha_a = 20"
    by (simp add: ex_sha_a_def)
  from lookup_hex_same_as_binary [OF h1 h2, of "ex_disk [] 1" ex_db] h1 h2 show ?thesis
    by blast
qed

text \<open>
  C10: a record that is registered before \<open>update_pack_entity_cache\<close> and whose path is
  still in the directory is in the registry after the call as the same record (hits,
  entity and lookup), as many times as before; its place in the list may differ.
\<close>

theorem update_keeps_records:
  assumes "db_entities s = Some es" and "it \<in> set es" and "item_path it \<in> set (glob_packs w)"
  shows "\<exists>es'. db_entities (snd (update_pack_entity_cache w force s)) = Some es'
            \<and> count (mset es') it = count (mset es) it"
proof -
  from assms(3) have "item_path it \<notin> set (gone w es)" by (simp add: gone_def)
  then have "count (mset (snd (rescan w es))) it = count (mset es) it"
    by (simp add: rescan_ok remove_packs_count count_added [OF assms(2)])
  with assms(1) show ?thesis by (simp add: update_eq split: option.splits)
qed

theorem update_keeps_records_witness:
  "db_entities ex_db = Some [ex_item_a, ex_item_b]
   \<and> ex_item_a \<in> set [ex_item_a, ex_item_b]
   \<and> item_path ex_item_a \<in> set (glob_packs (ex_disk [''pack-a.pack''] 2))
   \<and> (\<exists>es'. db_entities (snd (update_pack_entity_cache (ex_disk [''pack-a.pack''] 2) False ex_db))
              = Some es'
            \<and> count (mset es') ex_item_a = count (mset [ex_item_a, ex_item_b]) ex_item_a)
   \<and> snd (update_pack_entity_cache (ex_disk [''pack-a.pack''] 2) False ex_db)
       = \<lparr>db_entities = Some [ex_item_a], db_hit_count = 0, db_st_mtime = 2\<rparr>"
proof -
  have h1: "db_entities ex_db = Some [ex_item_a, ex_item_b]"
    by (simp add: ex_db_def)
  have h2: "ex_item_a \<in> set [ex_item_a, ex_item_b]"
    by simp
  have h3: "item_path ex_item_a \<in> set (glob_packs (ex_disk [''pack-a.pack''] 2))"
    by simp
  have r: "snd (update_pack_entity_cache (ex_disk [''pack-a.pack''] 2) False ex_db)
       = \<lparr>db_entities = Some [ex_item_a], db_hit_count = 0, db_st_mtime = 2\<rparr>"
    by (simp add: update_eq ex_db_def ex_rescan_drop_b)
  from update_keeps_records [OF h1 h2 h3, of False] h1 h2 h3 r show ?thesis
    by blast
qed

end
